theory Spec2Isabelle
  imports Complex_Main
begin

section \<open>Python values and strings\<close>

text \<open>
  The tracker is a Python program, so the fields of an expense hold whatever Python value
  was put there: a float, a str and a str when the entry comes from the prompts, and any
  JSON value when it comes from the data file (\<open>load_from_file\<close> checks no type).
  The values that can occur are exactly those \<open>json\<close> can read and write.

  A str is modelled as a \<open>string\<close> whose characters are the code points below 256:
  texts with other characters (among them the decimal digits of other scripts, which
  \<open>\d\<close> of \<open>re\<close> also matches) are outside the model.
\<close>

subsection \<open>Floats\<close>

text \<open>
  A float is a binary64 number: a finite value (the real number it denotes; the sign of
  zero is not kept), an infinity (\<open>Inf True\<close> is \<open>inf\<close>, \<open>Inf False\<close> is \<open>-inf\<close>) or \<open>nan\<close>.
\<close>

datatype float = Finite real | Inf bool | NaN

text \<open>
  Rounding a real number to binary64, to nearest and ties to even: \<open>bexp\<close> is the binary
  exponent, the spacing of the doubles near \<open>x\<close> is \<open>2 powi (e - 52)\<close> with \<open>e\<close> at
  least \<open>-1022\<close> (below that the doubles are subnormal and evenly spaced), and a result of
  magnitude \<open>2 powi 1024\<close> or more overflows to an infinity.
\<close>

definition bexp :: "real \<Rightarrow> int" where
  "bexp x = \<lfloor>log 2 \<bar>x\<bar>\<rfloor>"

definition rne :: "real \<Rightarrow> int" where
  "rne t =
     (let f = \<lfloor>t\<rfloor>; r = t - of_int f
      in if r < 1 / 2 then f else if 1 / 2 < r then f + 1 else if even f then f else f + 1)"

definition round_double :: "real \<Rightarrow> float" where
  "round_double x =
     (if x = 0 then Finite 0
      else let e = max (bexp x) (- 1022);
               q = 2 powi (e - 52);
               r = of_int (rne (x / q)) * q
           in if 2 powi 1024 \<le> \<bar>r\<bar> then Inf (0 < x) else Finite r)"

text \<open>The sum of two floats, as IEEE 754 has it.\<close>

fun fadd :: "float \<Rightarrow> float \<Rightarrow> float" where
  "fadd NaN y = NaN"
| "fadd x NaN = NaN"
| "fadd (Inf s) (Inf t) = (if s = t then Inf s else NaN)"
| "fadd (Inf s) (Finite y) = Inf s"
| "fadd (Finite x) (Inf t) = Inf t"
| "fadd (Finite x) (Finite y) = round_double (x + y)"

subsection \<open>Values\<close>

datatype pyval =
    PNone
  | PBool bool
  | PInt int
  | PFloat float
  | PStr string
  | PList "pyval list"
  | PDict "(string \<times> pyval) list"

text \<open>The exceptions of Python that the program meets.\<close>

datatype exn = ValueError | TypeError | KeyError | AttributeError | OverflowError

text \<open>
  The numbers of Python: int, bool (an int, 0 or 1) and float. \<open>num_val\<close> is the exact
  value of a number, by which Python compares numbers of different types.
\<close>

fun as_int :: "pyval \<Rightarrow> int option" where
  "as_int (PInt i) = Some i"
| "as_int (PBool b) = Some (if b then 1 else 0)"
| "as_int v = None"

fun num_val :: "pyval \<Rightarrow> float option" where
  "num_val (PFloat x) = Some x"
| "num_val v = map_option (\<lambda>i. Finite (of_int i)) (as_int v)"

text \<open>
  \<open>float(i)\<close> of an int, as the addition of an int and a float converts it: the nearest
  double, or OverflowError when the int is too large.
\<close>

definition to_float :: "pyval \<Rightarrow> exn + float" where
  "to_float v =
     (case v of
        PFloat x \<Rightarrow> Inr x
      | _ \<Rightarrow>
          (case as_int v of
             None \<Rightarrow> Inl TypeError
           | Some i \<Rightarrow>
               (case round_double (of_int i) of
                  Finite r \<Rightarrow> Inr (Finite r)
                | _ \<Rightarrow> Inl OverflowError)))"

text \<open>
  \<open>a + b\<close> for a number \<open>a\<close> (the running total of a sum): int plus int is exact, anything
  else is the sum of the two floats; TypeError when \<open>b\<close> is no number.
\<close>

definition py_add :: "pyval \<Rightarrow> pyval \<Rightarrow> exn + pyval" where
  "py_add a b =
     (if num_val a = None \<or> num_val b = None then Inl TypeError
      else case (as_int a, as_int b) of
             (Some i, Some j) \<Rightarrow> Inr (PInt (i + j))
           | _ \<Rightarrow>
               (case to_float a of Inl e \<Rightarrow> Inl e | Inr x \<Rightarrow>
                 (case to_float b of Inl e \<Rightarrow> Inl e | Inr y \<Rightarrow> Inr (PFloat (fadd x y)))))"

text \<open>\<open>str.lower()\<close> on the code points below 256: A-Z and the accented capitals.\<close>

definition lower_char :: "char \<Rightarrow> char" where
  "lower_char c =
     (let n = (of_char c :: nat)
      in if (65 \<le> n \<and> n \<le> 90) \<or> (192 \<le> n \<and> n \<le> 222 \<and> n \<noteq> 215)
         then char_of (n + 32) else c)"

definition lower :: "string \<Rightarrow> string" where
  "lower s = map lower_char s"

text \<open>\<open>str.strip()\<close>: the white space of Python below code point 256.\<close>

definition is_space :: "char \<Rightarrow> bool" where
  "is_space c = ((of_char c :: nat) \<in> {9, 10, 11, 12, 13, 28, 29, 30, 31, 32, 133, 160})"

definition strip :: "string \<Rightarrow> string" where
  "strip s = rev (dropWhile is_space (rev (dropWhile is_space s)))"

text \<open>\<open>\d\<close> of \<open>re\<close> and the value of a digit.\<close>

definition is_digit :: "char \<Rightarrow> bool" where
  "is_digit c = (c \<in> set ''0123456789'')"

definition digit_val :: "char \<Rightarrow> int" where
  "digit_val c = int (of_char c) - 48"

text \<open>\<open>int(s)\<close> on the texts the date groups capture: leading blanks, then digits.\<close>

definition int_text :: "string \<Rightarrow> int" where
  "int_text s = foldl (\<lambda>n c. 10 * n + digit_val c) 0 (dropWhile (\<lambda>c. c = CHR '' '') s)"

text \<open>\<open>str(n)\<close> of a Python int, and a field padded with zeros as \<open>strftime\<close> writes it.\<close>

definition digit_char :: "nat \<Rightarrow> char" where
  "digit_char n = char_of (48 + n)"

function str_nat :: "nat \<Rightarrow> string" where
  "str_nat n = (if n < 10 then [digit_char n] else str_nat (n div 10) @ [digit_char (n mod 10)])"
  by pat_completeness auto
termination
  by (relation "measure (\<lambda>n. n)") auto

declare str_nat.simps [simp del]

definition str_int :: "int \<Rightarrow> string" where
  "str_int i = (if i < 0 then CHR ''-'' # str_nat (nat (- i)) else str_nat (nat i))"

definition zero_pad :: "nat \<Rightarrow> int \<Rightarrow> string" where
  "zero_pad w i = (let s = str_int i in replicate (w - length s) CHR ''0'' @ s)"

section \<open>The calendar of \<open>datetime\<close>\<close>

definition is_leap :: "int \<Rightarrow> bool" where
  "is_leap year = (year mod 4 = 0 \<and> (year mod 100 \<noteq> 0 \<or> year mod 400 = 0))"

definition days_before_year :: "int \<Rightarrow> int" where
  "days_before_year year = (let y = year - 1 in y * 365 + y div 4 - y div 100 + y div 400)"

definition DAYS_IN_MONTH :: "int list" where
  "DAYS_IN_MONTH = [-1, 31, 28, 31, 30, 31, 30, 31, 31, 30, 31, 30, 31]"

definition DAYS_BEFORE_MONTH :: "int list" where
  "DAYS_BEFORE_MONTH = [-1, 0, 31, 59, 90, 120, 151, 181, 212, 243, 273, 304, 334]"

definition days_in_month :: "int \<Rightarrow> int \<Rightarrow> int" where
  "days_in_month year month =
     (if month = 2 \<and> is_leap year then 29 else DAYS_IN_MONTH ! nat month)"

definition days_before_month :: "int \<Rightarrow> int \<Rightarrow> int" where
  "days_before_month year month =
     DAYS_BEFORE_MONTH ! nat month + (if month > 2 \<and> is_leap year then 1 else 0)"

definition ymd2ord :: "int \<Rightarrow> int \<Rightarrow> int \<Rightarrow> int" where
  "ymd2ord year month day = days_before_year year + days_before_month year month + day"

text \<open>\<open>_check_date_fields\<close>: the constructor of a date raises ValueError when this fails.\<close>

definition check_date_fields :: "int \<Rightarrow> int \<Rightarrow> int \<Rightarrow> bool" where
  "check_date_fields year month day =
     (1 \<le> year \<and> year \<le> 9999 \<and> 1 \<le> month \<and> month \<le> 12 \<and>
      1 \<le> day \<and> day \<le> days_in_month year month)"

definition isoweek1monday :: "int \<Rightarrow> int" where
  "isoweek1monday year =
     (let firstday = ymd2ord year 1 1;
          firstweekday = (firstday + 6) mod 7;
          week1monday = firstday - firstweekday
      in if firstweekday > 3 then week1monday + 7 else week1monday)"

text \<open>\<open>date.isocalendar()\<close>: ISO year, week and weekday, the last two counted from 1.\<close>

definition isocalendar :: "int \<times> int \<times> int \<Rightarrow> int \<times> int \<times> int" where
  "isocalendar d =
     (case d of (year, month, day) \<Rightarrow>
        let week1monday = isoweek1monday year;
            today = ymd2ord year month day;
            week = (today - week1monday) div 7;
            wday = (today - week1monday) mod 7
        in if week < 0 then
             let week1monday' = isoweek1monday (year - 1)
             in (year - 1, (today - week1monday') div 7 + 1, (today - week1monday') mod 7 + 1)
           else if week \<ge> 52 \<and> today \<ge> isoweek1monday (year + 1) then (year + 1, 1, wday + 1)
           else (year, week + 1, wday + 1))"

section \<open>Parsing and validating a date\<close>

text \<open>
  \<open>datetime.strptime(date_str, "%Y-%m-%d")\<close> compiles the format to the regular expression
  \<^verbatim>\<open>(?P<Y>\d\d\d\d)-(?P<m>1[0-2]|0[1-9]|[1-9])-(?P<d>3[0-1]|[1-2]\d|0[1-9]|[1-9]| [1-9])\<close>
  and matches it at the start of the text. Each function below lists the ways its piece
  matches a prefix (the captured text and the rest), in the order the alternatives are
  tried, so the head of the list of all matches is the match \<open>re\<close> finds by backtracking.
\<close>

definition alt1 :: "string \<Rightarrow> string \<Rightarrow> (string \<times> string) list" where
  "alt1 cls s = (case s of a # r \<Rightarrow> if a \<in> set cls then [([a], r)] else [] | [] \<Rightarrow> [])"

definition alt2 :: "string \<Rightarrow> string \<Rightarrow> string \<Rightarrow> (string \<times> string) list" where
  "alt2 cls1 cls2 s =
     (case s of a # b # r \<Rightarrow> if a \<in> set cls1 \<and> b \<in> set cls2 then [([a, b], r)] else []
      | _ \<Rightarrow> [])"

definition group_Y :: "string \<Rightarrow> (string \<times> string) list" where
  "group_Y s =
     (case s of a # b # c # d # r \<Rightarrow>
        if is_digit a \<and> is_digit b \<and> is_digit c \<and> is_digit d then [([a, b, c, d], r)] else []
      | _ \<Rightarrow> [])"

definition group_m :: "string \<Rightarrow> (string \<times> string) list" where
  "group_m s = alt2 ''1'' ''012'' s @ alt2 ''0'' ''123456789'' s @ alt1 ''123456789'' s"

definition group_d :: "string \<Rightarrow> (string \<times> string) list" where
  "group_d s =
     alt2 ''3'' ''01'' s @ alt2 ''12'' ''0123456789'' s @ alt2 ''0'' ''123456789'' s @
     alt1 ''123456789'' s @ alt2 '' '' ''123456789'' s"

definition literal :: "char \<Rightarrow> string \<Rightarrow> string list" where
  "literal c s = (case s of a # r \<Rightarrow> if a = c then [r] else [] | [] \<Rightarrow> [])"

definition all_matches :: "string \<Rightarrow> ((string \<times> string \<times> string) \<times> string) list" where
  "all_matches s =
     concat (map (\<lambda>(Y, r1).
       concat (map (\<lambda>r2.
         concat (map (\<lambda>(m, r3).
           concat (map (\<lambda>r4.
             map (\<lambda>(d, r5). ((Y, m, d), r5)) (group_d r4))
           (literal CHR ''-'' r3)))
         (group_m r2)))
       (literal CHR ''-'' r1)))
     (group_Y s))"

definition format_regex_match :: "string \<Rightarrow> ((string \<times> string \<times> string) \<times> string) option" where
  "format_regex_match s = (case all_matches s of [] \<Rightarrow> None | found # _ \<Rightarrow> Some found)"

text \<open>
  \<open>strptime\<close>: TypeError when the argument is no str, ValueError when the text does not
  match, when unconverted data remains after the match, or when the fields are no date.
\<close>

definition strptime :: "pyval \<Rightarrow> exn + (int \<times> int \<times> int)" where
  "strptime v =
     (case v of
        PStr s \<Rightarrow>
          (case format_regex_match s of
             None \<Rightarrow> Inl ValueError
           | Some ((Y, m, d), rest) \<Rightarrow>
               if rest \<noteq> [] then Inl ValueError
               else let year = int_text Y; month = int_text m; day = int_text d
                    in if check_date_fields year month day then Inr (year, month, day)
                       else Inl ValueError)
      | _ \<Rightarrow> Inl TypeError)"

definition validate_date :: "pyval \<Rightarrow> exn + bool" where
  "validate_date date_str =
     (case strptime date_str of
        Inr _ \<Rightarrow> Inr True
      | Inl ValueError \<Rightarrow> Inr False
      | Inl e \<Rightarrow> Inl e)"

text \<open>
  \<open>strftime\<close> with the formats the program uses, as the C library of Linux writes them:
  \<open>%m\<close> and \<open>%d\<close> with two digits, \<open>%Y\<close> as the plain number of the year (four digits
  from the year 1000 on, fewer before).
\<close>

definition strftime_Ymd :: "int \<times> int \<times> int \<Rightarrow> string" where
  "strftime_Ymd d =
     (case d of (year, month, day) \<Rightarrow>
        str_int year @ ''-'' @ zero_pad 2 month @ ''-'' @ zero_pad 2 day)"

definition strftime_Ym :: "int \<times> int \<times> int \<Rightarrow> string" where
  "strftime_Ym d = (case d of (year, month, day) \<Rightarrow> str_int year @ ''-'' @ zero_pad 2 month)"

section \<open>Expenses and the tracker\<close>

record Expense =
  amount :: pyval
  category :: pyval
  date :: pyval

definition to_dict :: "Expense \<Rightarrow> pyval" where
  "to_dict ex =
     PDict [(''amount'', amount ex), (''category'', category ex), (''date'', date ex)]"

text \<open>\<open>data[key]\<close> with a str key: only a dict can be read this way.\<close>

definition subscript :: "pyval \<Rightarrow> string \<Rightarrow> exn + pyval" where
  "subscript data k =
     (case data of
        PDict items \<Rightarrow> (case map_of items k of None \<Rightarrow> Inl KeyError | Some v \<Rightarrow> Inr v)
      | _ \<Rightarrow> Inl TypeError)"

definition from_dict :: "pyval \<Rightarrow> exn + Expense" where
  "from_dict data =
     (case subscript data ''amount'' of Inl e \<Rightarrow> Inl e | Inr a \<Rightarrow>
       (case subscript data ''category'' of Inl e \<Rightarrow> Inl e | Inr c \<Rightarrow>
         (case subscript data ''date'' of Inl e \<Rightarrow> Inl e | Inr d \<Rightarrow>
            Inr \<lparr>amount = a, category = c, date = d\<rparr>)))"

text \<open>
  The data file \<open>expenses.json\<close>: absent, holding text that is no JSON, or holding a JSON
  document. \<open>json.dump\<close> and \<open>json.load\<close> are the library's writer and reader; the file is
  modelled by the document they write and read.
\<close>

datatype file_state = Absent | Malformed | Document pyval

record tracker =
  expenses :: "Expense list"
  disk :: file_state

text \<open>\<open>ExpenseTracker()\<close>: no expense yet, beside whatever file there is.\<close>

definition new_tracker :: "file_state \<Rightarrow> tracker" where
  "new_tracker f = \<lparr>expenses = [], disk = f\<rparr>"

text \<open>The lines the program prints; the texts are in the comments of each operation.\<close>

datatype message =
    Success pyval pyval pyval
  | ErrorInvalidDate
  | ErrorNumericAmount
  | DataSaved
  | Loaded nat
  | NoExistingData
  | DataFileCorrupted
  | NoExpensesToDelete
  | NoExpensesToEdit
  | ListLine nat Expense
  | Deleted Expense
  | ErrorInvalidSelection
  | ErrorEnterNumber
  | Editing Expense
  | KeepingAmount
  | KeepingDate
  | Updated
  | NoExpensesRecorded
  | CategoryTotal string pyval
  | OverallTotal pyval
  | WarningSkipping pyval
  | ErrorInvalidChoice
  | SpendingSummary "(pyval \<times> float) list"
  | ErrorValidOption
  | NoDataForChart

definition save_to_file :: "tracker \<Rightarrow> message list \<times> tracker" where
  "save_to_file t = ([DataSaved], t\<lparr>disk := Document (PList (map to_dict (expenses t)))\<rparr>)"

text \<open>\<open>for item in data\<close>: the elements of a list, the keys of a dict, the characters of a str.\<close>

definition iterate :: "pyval \<Rightarrow> exn + pyval list" where
  "iterate data =
     (case data of
        PList xs \<Rightarrow> Inr xs
      | PDict items \<Rightarrow> Inr (map (\<lambda>(k, v). PStr k) items)
      | PStr s \<Rightarrow> Inr (map (\<lambda>c. PStr [c]) s)
      | _ \<Rightarrow> Inl TypeError)"

fun from_dicts :: "pyval list \<Rightarrow> exn + Expense list" where
  "from_dicts [] = Inr []"
| "from_dicts (item # items) =
     (case from_dict item of Inl e \<Rightarrow> Inl e | Inr ex \<Rightarrow>
       (case from_dicts items of Inl e \<Rightarrow> Inl e | Inr exs \<Rightarrow> Inr (ex # exs)))"

text \<open>
  \<open>load_from_file\<close> catches FileNotFoundError and JSONDecodeError and nothing else: any other
  exception leaves the function (\<open>Inl\<close>) and ends the program.
\<close>

definition load_from_file :: "tracker \<Rightarrow> exn + message list \<times> tracker" where
  "load_from_file t =
     (case disk t of
        Absent \<Rightarrow> Inr ([NoExistingData], t)
      | Malformed \<Rightarrow> Inr ([DataFileCorrupted], t)
      | Document data \<Rightarrow>
          (case iterate data of Inl e \<Rightarrow> Inl e | Inr items \<Rightarrow>
            (case from_dicts items of Inl e \<Rightarrow> Inl e | Inr exs \<Rightarrow>
               Inr ([Loaded (length exs)], t\<lparr>expenses := exs\<rparr>))))"

text \<open>
  \<open>add_expenses\<close>. \<open>float_of\<close> stands for \<open>float(...)\<close> (\<open>None\<close> when it raises ValueError) and
  \<open>now\<close> for the date of \<open>datetime.now()\<close>; the three texts are what the user types.
\<close>

definition add_expenses ::
  "(string \<Rightarrow> float option) \<Rightarrow> int \<times> int \<times> int \<Rightarrow> string \<Rightarrow> string \<Rightarrow> string \<Rightarrow> tracker
     \<Rightarrow> exn + message list \<times> tracker" where
  "add_expenses float_of now amount_in category_in date_in t =
     (case float_of (strip amount_in) of
        None \<Rightarrow> Inr ([ErrorNumericAmount], t)
      | Some a \<Rightarrow>
          let category = strip category_in;
              date0 = strip date_in;
              date = (if date0 = [] then strftime_Ymd now else date0)
          in (case validate_date (PStr date) of
                Inl ValueError \<Rightarrow> Inr ([ErrorNumericAmount], t)
              | Inl e \<Rightarrow> Inl e
              | Inr False \<Rightarrow> Inr ([ErrorInvalidDate], t)
              | Inr True \<Rightarrow>
                  (let expense = \<lparr>amount = PFloat a, category = PStr category, date = PStr date\<rparr>;
                       (out, t') = save_to_file (t\<lparr>expenses := expenses t @ [expense]\<rparr>)
                   in Inr (Success (PFloat a) (PStr category) (PStr date) # out, t'))))"

definition list_lines :: "Expense list \<Rightarrow> message list" where
  "list_lines exs = map (\<lambda>(idx, ex). ListLine (idx + 1) ex) (enumerate 0 exs)"

text \<open>\<open>xs.pop(i)\<close> for an index in range.\<close>

definition pop :: "nat \<Rightarrow> 'a list \<Rightarrow> 'a list" where
  "pop i xs = take i xs @ drop (Suc i) xs"

text \<open>\<open>delete_expense\<close>; \<open>int_of\<close> stands for \<open>int(...)\<close>.\<close>

definition delete_expense ::
  "(string \<Rightarrow> int option) \<Rightarrow> string \<Rightarrow> tracker \<Rightarrow> exn + message list \<times> tracker" where
  "delete_expense int_of choice_in t =
     (if expenses t = [] then Inr ([NoExpensesToDelete], t)
      else case int_of (strip choice_in) of
             None \<Rightarrow> Inr (list_lines (expenses t) @ [ErrorEnterNumber], t)
           | Some choice \<Rightarrow>
               if 1 \<le> choice \<and> choice \<le> int (length (expenses t)) then
                 let removed = expenses t ! nat (choice - 1);
                     (out, t') = save_to_file (t\<lparr>expenses := pop (nat (choice - 1)) (expenses t)\<rparr>)
                 in Inr (list_lines (expenses t) @ [Deleted removed] @ out, t')
               else Inr (list_lines (expenses t) @ [ErrorInvalidSelection], t))"

text \<open>
  \<open>edit_expense\<close>. The entry is changed in place; every entry of the list is an object of
  its own (made by \<open>add_expenses\<close> or \<open>from_dict\<close>), so no other position sees the change.
\<close>

definition edit_expense ::
  "(string \<Rightarrow> float option) \<Rightarrow> (string \<Rightarrow> int option) \<Rightarrow> string \<Rightarrow> string \<Rightarrow> string \<Rightarrow> string
     \<Rightarrow> tracker \<Rightarrow> exn + message list \<times> tracker" where
  "edit_expense float_of int_of choice_in amount_in category_in date_in t =
     (if expenses t = [] then Inr ([NoExpensesToEdit], t)
      else case int_of (strip choice_in) of
             None \<Rightarrow> Inr (list_lines (expenses t) @ [ErrorEnterNumber], t)
           | Some choice \<Rightarrow>
               if 1 \<le> choice \<and> choice \<le> int (length (expenses t)) then
                 let i = nat (choice - 1);
                     expense = expenses t ! i;
                     new_amount = strip amount_in;
                     new_category = strip category_in;
                     new_date = strip date_in;
                     (out1, e1) =
                       (if new_amount \<noteq> [] then
                          (case float_of new_amount of
                             Some a \<Rightarrow> ([], expense\<lparr>amount := PFloat a\<rparr>)
                           | None \<Rightarrow> ([KeepingAmount], expense))
                        else ([], expense));
                     e2 = (if new_category \<noteq> [] then e1\<lparr>category := PStr new_category\<rparr> else e1)
                 in case (if new_date \<noteq> [] then validate_date (PStr new_date) else Inr False) of
                      Inl e \<Rightarrow> Inl e
                    | Inr ok \<Rightarrow>
                        let e3 = (if ok then e2\<lparr>date := PStr new_date\<rparr> else e2);
                            out3 = (if new_date \<noteq> [] \<and> \<not> ok then [KeepingDate] else []);
                            (out, t') = save_to_file (t\<lparr>expenses := (expenses t)[i := e3]\<rparr>)
                        in Inr (list_lines (expenses t) @ [Editing expense] @ out1 @ out3 @ out
                                  @ [Updated], t')
               else Inr (list_lines (expenses t) @ [ErrorInvalidSelection], t))"

section \<open>Summaries\<close>

text \<open>
  \<open>sum(ex.amount for ex in self.expenses if ex.category.lower() == category.lower())\<close>:
  the entries are visited in order; \<open>.lower()\<close> of a value that is no str raises
  AttributeError, adding a value that is no number raises TypeError. \<open>sum\<close> starts from
  the int \<open>0\<close> and adds one item after the other with \<open>+\<close>.
\<close>

fun sum_category :: "string \<Rightarrow> Expense list \<Rightarrow> pyval \<Rightarrow> exn + pyval" where
  "sum_category c [] tot = Inr tot"
| "sum_category c (ex # exs) tot =
     (case category ex of
        PStr s \<Rightarrow>
          if lower s = lower c then
            (case py_add tot (amount ex) of
               Inl e \<Rightarrow> Inl e
             | Inr tot' \<Rightarrow> sum_category c exs tot')
          else sum_category c exs tot
      | _ \<Rightarrow> Inl AttributeError)"

text \<open>\<open>sum(ex.amount for ex in self.expenses)\<close>\<close>

fun sum_amounts :: "Expense list \<Rightarrow> pyval \<Rightarrow> exn + pyval" where
  "sum_amounts [] tot = Inr tot"
| "sum_amounts (ex # exs) tot =
     (case py_add tot (amount ex) of
        Inl e \<Rightarrow> Inl e
      | Inr tot' \<Rightarrow> sum_amounts exs tot')"

definition total_by_category :: "Expense list \<Rightarrow> string \<Rightarrow> exn + pyval" where
  "total_by_category exs c = sum_category c exs (PInt 0)"

definition total_overall :: "Expense list \<Rightarrow> exn + pyval" where
  "total_overall exs = sum_amounts exs (PInt 0)"

text \<open>
  A \<open>defaultdict(float)\<close> as the list of its items in insertion order. A key must be
  hashable; two keys are the same when Python finds them equal (numbers by value, and
  \<open>nan\<close> equal to nothing). The values are floats.
\<close>

fun hashable :: "pyval \<Rightarrow> bool" where
  "hashable (PList xs) = False"
| "hashable (PDict items) = False"
| "hashable v = True"

definition py_eq :: "pyval \<Rightarrow> pyval \<Rightarrow> bool" where
  "py_eq a b =
     (case (num_val a, num_val b) of
        (Some x, Some y) \<Rightarrow> x = y \<and> x \<noteq> NaN
      | (None, None) \<Rightarrow> a = b
      | _ \<Rightarrow> False)"

text \<open>\<open>d[k] += v\<close>: a missing key starts at \<open>0.0\<close> and is put last.\<close>

fun dict_add :: "pyval \<Rightarrow> float \<Rightarrow> (pyval \<times> float) list \<Rightarrow> (pyval \<times> float) list" where
  "dict_add k v [] = [(k, fadd (Finite 0) v)]"
| "dict_add k v ((k', x) # d) =
     (if py_eq k' k then (k', fadd x v) # d else (k', x) # dict_add k v d)"

definition add_to :: "pyval \<Rightarrow> pyval \<Rightarrow> (pyval \<times> float) list \<Rightarrow> exn + (pyval \<times> float) list" where
  "add_to k a d =
     (if \<not> hashable k then Inl TypeError
      else case to_float a of Inl e \<Rightarrow> Inl e | Inr v \<Rightarrow> Inr (dict_add k v d))"

text \<open>
  The key of an entry in the summary over time: the date as it is stored (1, daily),
  \<open>strftime("%Y-%m")\<close> (2, monthly), \<open>f"{year}-W{week}"\<close> with the week of \<open>isocalendar\<close>
  (3, weekly); no key for another choice.
\<close>

definition period_key :: "int \<Rightarrow> Expense \<Rightarrow> int \<times> int \<times> int \<Rightarrow> pyval option" where
  "period_key time_choice expense date_obj =
     (if time_choice = 1 then Some (date expense)
      else if time_choice = 2 then Some (PStr (strftime_Ym date_obj))
      else if time_choice = 3 then
        (let year = fst date_obj;
             week = fst (snd (isocalendar date_obj))
         in Some (PStr (str_int year @ ''-W'' @ str_int week)))
      else None)"

text \<open>
  The loop of the summary over time, with the lines printed so far and the summary so
  far. It ends with the summary, or with nothing after \<open>Error: Invalid choice.\<close>
\<close>

fun summarise ::
  "int \<Rightarrow> Expense list \<Rightarrow> message list \<Rightarrow> (pyval \<times> float) list
     \<Rightarrow> exn + message list \<times> (pyval \<times> float) list option" where
  "summarise time_choice [] out summary = Inr (out, Some summary)"
| "summarise time_choice (expense # exs) out summary =
     (case validate_date (date expense) of
        Inl e \<Rightarrow> Inl e
      | Inr False \<Rightarrow> summarise time_choice exs (out @ [WarningSkipping (date expense)]) summary
      | Inr True \<Rightarrow>
          (case strptime (date expense) of
             Inl e \<Rightarrow> Inl e
           | Inr date_obj \<Rightarrow>
               (case period_key time_choice expense date_obj of
                  None \<Rightarrow> Inr (out @ [ErrorInvalidChoice], None)
                | Some k \<Rightarrow>
                    (case add_to k (amount expense) summary of
                       Inl e \<Rightarrow> Inl e
                     | Inr summary' \<Rightarrow> summarise time_choice exs out summary'))))"

definition spending_over_time ::
  "int \<Rightarrow> Expense list \<Rightarrow> exn + message list \<times> (pyval \<times> float) list option" where
  "spending_over_time time_choice exs = summarise time_choice exs [] []"

text \<open>
  \<open>view_summary\<close>: the first text is the choice of the menu, the second the category
  (choice 1) or the choice of the period (choice 3). A total is printed with \<open>:.2f\<close>,
  which converts it to a float. The table of choice 3 is printed in ascending order of
  its keys; the message carries the summary itself.
\<close>

definition view_summary ::
  "(string \<Rightarrow> int option) \<Rightarrow> string \<Rightarrow> string \<Rightarrow> tracker \<Rightarrow> exn + message list" where
  "view_summary int_of choice_in second_in t =
     (if expenses t = [] then Inr [NoExpensesRecorded]
      else case int_of (strip choice_in) of
             None \<Rightarrow> Inr [ErrorEnterNumber]
           | Some choice \<Rightarrow>
               if choice = 1 then
                 (let category = strip second_in
                  in case total_by_category (expenses t) category of
                       Inl e \<Rightarrow> Inl e
                     | Inr tot \<Rightarrow>
                         (case to_float tot of
                            Inl e \<Rightarrow> Inl e
                          | Inr f \<Rightarrow> Inr [CategoryTotal category tot]))
               else if choice = 2 then
                 (case total_overall (expenses t) of
                    Inl e \<Rightarrow> Inl e
                  | Inr tot \<Rightarrow>
                      (case to_float tot of
                         Inl e \<Rightarrow> Inl e
                       | Inr f \<Rightarrow> Inr [OverallTotal tot]))
               else if choice = 3 then
                 (case int_of (strip second_in) of
                    None \<Rightarrow> Inr [ErrorEnterNumber]
                  | Some time_choice \<Rightarrow>
                      (case spending_over_time time_choice (expenses t) of
                         Inl e \<Rightarrow> Inl e
                       | Inr (out, None) \<Rightarrow> Inr out
                       | Inr (out, Some summary) \<Rightarrow> Inr (out @ [SpendingSummary summary])))
               else Inr [ErrorValidOption])"

text \<open>
  \<open>graphical_summary\<close>: the totals by category, and the two lists handed to the bar chart.
\<close>

fun category_totals :: "Expense list \<Rightarrow> (pyval \<times> float) list \<Rightarrow> exn + (pyval \<times> float) list" where
  "category_totals [] totals = Inr totals"
| "category_totals (ex # exs) totals =
     (case add_to (category ex) (amount ex) totals of
        Inl e \<Rightarrow> Inl e
      | Inr totals' \<Rightarrow> category_totals exs totals')"

definition graphical_summary ::
  "tracker \<Rightarrow> exn + message list \<times> (pyval list \<times> float list) option" where
  "graphical_summary t =
     (if expenses t = [] then Inr ([NoDataForChart], None)
      else case category_totals (expenses t) [] of
             Inl e \<Rightarrow> Inl e
           | Inr totals \<Rightarrow> Inr ([], Some (map fst totals, map snd totals)))"

text \<open>
  \<open>Expense(amount, category, date)\<close> with a finite float and two strs, as \<open>add_expenses\<close>
  builds it.
\<close>

definition entry :: "real \<Rightarrow> string \<Rightarrow> string \<Rightarrow> Expense" where
  "entry a c d = \<lparr>amount = PFloat (Finite a), category = PStr c, date = PStr d\<rparr>"

section \<open>Notions of the specification\<close>














text \<open>
  A date of the Gregorian calendar, and the grammar \<open>YYYY-MM-DD\<close> read strictly: four
  digits, two digits and two digits, separated by hyphens, that name such a date.
\<close>

definition gregorian :: "int \<Rightarrow> int \<Rightarrow> int \<Rightarrow> bool" where
  "gregorian year month day =
     (1 \<le> month \<and> month \<le> 12 \<and> 1 \<le> day \<and> day \<le> days_in_month year month)"

definition strict_ymd :: "string \<Rightarrow> bool" where
  "strict_ymd s =
     (length s = 10 \<and> s ! 4 = CHR ''-'' \<and> s ! 7 = CHR ''-'' \<and>
      list_all is_digit (take 4 s @ take 2 (drop 5 s) @ drop 8 s) \<and>
      gregorian (int_text (take 4 s)) (int_text (take 2 (drop 5 s))) (int_text (drop 8 s)))"

text \<open>
  The texts that \<open>strptime\<close> takes for a date: a year of four digits, a month of one or two
  digits and a day of one or two digits or of a blank and a digit, separated by hyphens,
  whose numbers \<open>_check_date_fields\<close> lets pass (a year from 1 on and a day of that month).
\<close>

definition field_text :: "string \<Rightarrow> bool" where
  "field_text x = ((length x = 1 \<or> length x = 2) \<and> list_all is_digit x)"

definition accepted_date_text :: "string \<Rightarrow> bool" where
  "accepted_date_text s =
     (\<exists>Y M D. s = Y @ ''-'' @ M @ ''-'' @ D
        \<and> length Y = 4 \<and> list_all is_digit Y
        \<and> field_text M
        \<and> (field_text D \<or> (\<exists>c. D = [CHR '' '', c] \<and> is_digit c))
        \<and> check_date_fields (int_text Y) (int_text M) (int_text D))"







section \<open>Properties\<close>

subsection \<open>Saving and loading\<close>

lemma from_dict_to_dict: "from_dict (to_dict ex) = Inr ex"
  by (simp add: from_dict_def to_dict_def subscript_def)

lemma from_dicts_to_dict: "from_dicts (map to_dict exs) = Inr exs"
  by (induction exs) (simp_all add: from_dict_to_dict)

text \<open>
  C5. Saving a sequence of expenses and then loading the file that was written yields the
  same sequence, field by field and in the same order, whatever the tracker held before
  the load. It holds for every sequence, so for every non-empty sequence of valid expenses.
\<close>

theorem save_load_roundtrip:
  "load_from_file (t'\<lparr>disk := disk (snd (save_to_file t))\<rparr>) =
     Inr ([Loaded (length (expenses t))],
          t'\<lparr>disk := Document (PList (map to_dict (expenses t))), expenses := expenses t\<rparr>)"
  by (simp add: load_from_file_def save_to_file_def iterate_def from_dicts_to_dict)

theorem save_load_roundtrip_witness:
  "load_from_file
     (new_tracker (disk (snd (save_to_file
        \<lparr>expenses = [entry 250 ''Food'' ''2024-03-01'', entry 1200.5 ''Rent'' ''2024-03-01''],
         disk = Absent\<rparr>)))) =
   Inr ([Loaded 2],
        \<lparr>expenses = [entry 250 ''Food'' ''2024-03-01'', entry 1200.5 ''Rent'' ''2024-03-01''],
         disk = Document (PList [to_dict (entry 250 ''Food'' ''2024-03-01''),
                                 to_dict (entry 1200.5 ''Rent'' ''2024-03-01'')])\<rparr>)"
  using save_load_roundtrip [where t' = "new_tracker Absent" and t =
      "\<lparr>expenses = [entry 250 ''Food'' ''2024-03-01'', entry 1200.5 ''Rent'' ''2024-03-01''],
        disk = Absent\<rparr>"]
  by (simp add: new_tracker_def save_to_file_def)

text \<open>
  C3. A missing file and a file that is no JSON are handled: the tracker stays empty and
  a line is printed (\<open>load_absent_or_malformed\<close> below). A file that holds JSON of
  another shape than a list of objects with the three keys is not: the exception of
  \<open>from_dict\<close> or of the iteration is caught by no handler of \<open>load_from_file\<close>, so the
  load ends the program instead of reporting corrupt data. Here an object lacks two keys.
\<close>

lemma load_missing_key:
  "load_from_file (new_tracker (Document (PList [PDict [(''amount'', PInt 5)]]))) = Inl KeyError"
  by (simp add: load_from_file_def new_tracker_def iterate_def from_dict_def subscript_def)

lemma load_not_a_list:
  "load_from_file (new_tracker (Document (PInt 5))) = Inl TypeError"
  by (simp add: load_from_file_def new_tracker_def iterate_def)

lemma load_absent_or_malformed:
  "load_from_file (new_tracker Absent) = Inr ([NoExistingData], new_tracker Absent) \<and>
   load_from_file (new_tracker Malformed) = Inr ([DataFileCorrupted], new_tracker Malformed) \<and>
   expenses (new_tracker Absent) = [] \<and> expenses (new_tracker Malformed) = []"
  by (simp add: load_from_file_def new_tracker_def)

subsection \<open>Deleting and editing by position\<close>

lemma pop_length: "i < length xs \<Longrightarrow> length (pop i xs) = length xs - 1"
  by (simp add: pop_def)

lemma pop_before: "j < i \<Longrightarrow> i < length xs \<Longrightarrow> pop i xs ! j = xs ! j"
  by (simp add: pop_def nth_append)

lemma pop_after: "i \<le> j \<Longrightarrow> i < length xs \<Longrightarrow> pop i xs ! j = xs ! Suc j"
  by (simp add: pop_def nth_append min_def)

text \<open>
  C7. With \<open>count\<close> entries in the store and the number \<open>index\<close> typed at the prompt:
  when \<open>1 \<le> index \<le> count\<close>, \<open>delete_expense\<close> reports the entry at that position as
  deleted, the list is one shorter, the entries before the position stay, every later
  entry moves one position down, and the file is rewritten with the new list. For any
  other index the operation refuses (\<open>Error: Invalid selection.\<close>, or
  \<open>No expenses available to delete.\<close> when the store is empty) and tracker and file
  are unchanged.
\<close>

theorem delete_expense_spec:
  assumes "int_of (strip choice_in) = Some index"
  shows "if 1 \<le> index \<and> index \<le> int (length (expenses t)) then
           (\<exists>t'. delete_expense int_of choice_in t =
                   Inr (list_lines (expenses t) @
                        [Deleted (expenses t ! nat (index - 1)), DataSaved], t')
              \<and> length (expenses t') = length (expenses t) - 1
              \<and> (\<forall>j. j < nat (index - 1) \<longrightarrow> expenses t' ! j = expenses t ! j)
              \<and> (\<forall>j. nat (index - 1) \<le> j \<and> j < length (expenses t') \<longrightarrow>
                     expenses t' ! j = expenses t ! Suc j)
              \<and> disk t' = Document (PList (map to_dict (expenses t'))))
         else delete_expense int_of choice_in t =
                Inr (if expenses t = [] then [NoExpensesToDelete]
                     else list_lines (expenses t) @ [ErrorInvalidSelection], t)"
proof (cases "1 \<le> index \<and> index \<le> int (length (expenses t))")
  case True
  then have ne: "expenses t \<noteq> []" and i: "nat (index - 1) < length (expenses t)"
    by auto
  show ?thesis
    using True ne i assms
    by (simp add: delete_expense_def save_to_file_def pop_length pop_before pop_after)
next
  case False
  then show ?thesis
    using assms by (auto simp: delete_expense_def)
qed

theorem delete_expense_spec_witness:
  "(\<exists>t'. delete_expense (\<lambda>s. if s = ''2'' then Some 2 else None) '' 2 ''
            \<lparr>expenses = [entry 1 ''a'' ''2024-01-01'', entry 2 ''b'' ''2024-01-02'',
                         entry 3 ''c'' ''2024-01-03''], disk = Absent\<rparr> =
          Inr ([ListLine 1 (entry 1 ''a'' ''2024-01-01''), ListLine 2 (entry 2 ''b'' ''2024-01-02''),
                ListLine 3 (entry 3 ''c'' ''2024-01-03''),
                Deleted (entry 2 ''b'' ''2024-01-02''), DataSaved], t')
        \<and> length (expenses t') = 2
        \<and> expenses t' ! 0 = entry 1 ''a'' ''2024-01-01''
        \<and> expenses t' ! 1 = entry 3 ''c'' ''2024-01-03'')
   \<and> delete_expense (\<lambda>s. if s = ''7'' then Some 7 else None) ''7''
            \<lparr>expenses = [entry 1 ''a'' ''2024-01-01''], disk = Absent\<rparr> =
          Inr ([ListLine 1 (entry 1 ''a'' ''2024-01-01''), ErrorInvalidSelection],
               \<lparr>expenses = [entry 1 ''a'' ''2024-01-01''], disk = Absent\<rparr>)"
proof -
  have s2: "strip '' 2 '' = ''2''" and s7: "strip ''7'' = ''7''"
    by (simp_all add: strip_def is_space_def)
  have a: "(if s = ''2'' then Some 2 else None) = Some (2::int)" if "s = ''2''" for s :: string
    using that by simp
  show ?thesis
    using delete_expense_spec [where int_of = "\<lambda>s. if s = ''2'' then Some 2 else None"
        and choice_in = "'' 2 ''" and index = 2
        and t = "\<lparr>expenses = [entry 1 ''a'' ''2024-01-01'', entry 2 ''b'' ''2024-01-02'',
                         entry 3 ''c'' ''2024-01-03''], disk = Absent\<rparr>"]
      delete_expense_spec [where int_of = "\<lambda>s. if s = ''7'' then Some 7 else None"
        and choice_in = "''7''" and index = 7
        and t = "\<lparr>expenses = [entry 1 ''a'' ''2024-01-01''], disk = Absent\<rparr>"]
    by (auto simp: s2 s7 list_lines_def enumerate_eq_zip upt_rec)
qed

text \<open>
  C8. For a valid position, \<open>edit_expense\<close> with a new category and nothing typed for the
  amount and the date changes the category of the entry at that position and nothing
  else: its amount and date, the length of the list and every other entry stay as they
  were. The file is rewritten with the new list.
\<close>

theorem edit_category_only:
  assumes "int_of (strip choice_in) = Some index"
    and "1 \<le> index" and "index \<le> int (length (expenses t))"
    and "strip amount_in = []" and "strip date_in = []" and "strip category_in \<noteq> []"
  shows "\<exists>out t'. edit_expense float_of int_of choice_in amount_in category_in date_in t = Inr (out, t')
           \<and> length (expenses t') = length (expenses t)
           \<and> category (expenses t' ! nat (index - 1)) = PStr (strip category_in)
           \<and> amount (expenses t' ! nat (index - 1)) = amount (expenses t ! nat (index - 1))
           \<and> date (expenses t' ! nat (index - 1)) = date (expenses t ! nat (index - 1))
           \<and> (\<forall>j. j \<noteq> nat (index - 1) \<longrightarrow> expenses t' ! j = expenses t ! j)
           \<and> disk t' = Document (PList (map to_dict (expenses t')))"
proof -
  from assms have ne: "expenses t \<noteq> []" and i: "nat (index - 1) < length (expenses t)"
    by auto
  show ?thesis
    using assms ne i
    by (simp add: edit_expense_def save_to_file_def Let_def)
qed

theorem edit_category_only_witness:
  "\<exists>out t'. edit_expense (\<lambda>s. None) (\<lambda>s. if s = ''2'' then Some 2 else None)
               ''2'' '''' '' Rent'' '' ''
               \<lparr>expenses = [entry 1 ''a'' ''2024-01-01'', entry 2 ''b'' ''2024-01-02''],
                disk = Absent\<rparr> = Inr (out, t')
      \<and> expenses t' = [entry 1 ''a'' ''2024-01-01'', entry 2 ''Rent'' ''2024-01-02'']"
proof -
  have s: "strip ''2'' = ''2''" "strip '''' = ''''" "strip '' Rent'' = ''Rent''" "strip '' '' = ''''"
    by (simp_all add: strip_def is_space_def)
  show ?thesis
    using edit_category_only [where int_of = "\<lambda>s. if s = ''2'' then Some 2 else None"
        and float_of = "\<lambda>s. None" and choice_in = "''2''" and index = 2
        and amount_in = "''''" and category_in = "'' Rent''" and date_in = "'' ''"
        and t = "\<lparr>expenses = [entry 1 ''a'' ''2024-01-01'', entry 2 ''b'' ''2024-01-02''],
                  disk = Absent\<rparr>"]
    by (simp add: s edit_expense_def save_to_file_def Let_def entry_def)
qed

subsection \<open>Sums of floats\<close>

lemma rne_of_int: "rne (of_int k) = k"
  by (simp add: rne_def)

lemma powr_powi: "(2::real) powr (of_int k) = 2 powi k"
  by (simp add: powr_real_of_int')

lemma powr_powi_Suc: "(2::real) powr (of_int k + 1) = 2 powi (k + 1)"
  using powr_powi [of "k + 1"] by simp


lemma bexp_bounds:
  assumes "x \<noteq> 0"
  shows "2 powi (bexp x) \<le> \<bar>x\<bar> \<and> \<bar>x\<bar> < 2 powi (bexp x + 1)"
proof -
  have pos: "0 < \<bar>x\<bar>" using assms by simp
  have "of_int (bexp x) \<le> log 2 \<bar>x\<bar>" "log 2 \<bar>x\<bar> < of_int (bexp x) + 1"
    unfolding bexp_def by linarith+
  then have "2 powr (of_int (bexp x)) \<le> \<bar>x\<bar>" "\<bar>x\<bar> < 2 powr (of_int (bexp x) + 1)"
    using pos by (simp_all add: le_log_iff log_less_iff)
  then show ?thesis
    by (simp only: powr_powi powr_powi_Suc)
qed

lemma powi_mono: "(2::real) powi a \<le> 2 powi b \<longleftrightarrow> a \<le> b"
  by (simp flip: powr_powi)

lemma powi_less: "(2::real) powi a < 2 powi b \<longleftrightarrow> a < b"
  by (simp flip: powr_powi)

lemma round_double_exact:
  assumes "x = of_int k * 2 powi (max (bexp x) (- 1022) - 52)" and "\<bar>x\<bar> < 2 powi 1024"
  shows "round_double x = Finite x"
proof (cases "x = 0")
  case True
  then show ?thesis by (simp add: round_double_def)
next
  case False
  let ?q = "(2::real) powi (max (bexp x) (- 1022) - 52)"
  have q: "?q \<noteq> 0"
    by simp
  from assms(1) have "x / ?q = of_int k"
    using q by (metis nonzero_mult_div_cancel_right)
  then have "of_int (rne (x / ?q)) * ?q = x"
    using assms(1) by (simp only: rne_of_int)
  with False assms(2) show ?thesis
    by (simp add: round_double_def Let_def)
qed

lemma round_double_whole:
  assumes "x = of_int n" and "\<bar>x\<bar> \<le> 2 ^ 53"
  shows "round_double x = Finite x"
proof (cases "x = 0")
  case True
  then show ?thesis by (simp add: round_double_def)
next
  case False
  let ?e = "bexp x"
  from bexp_bounds [OF False] have lo: "2 powi ?e \<le> \<bar>x\<bar>" and hi: "\<bar>x\<bar> < 2 powi (?e + 1)"
    by simp_all
  from False assms(1) have "1 \<le> \<bar>x\<bar>"
    by (cases "n = 0") (simp_all flip: of_int_abs)
  with hi have "(2::real) powi 0 < 2 powi (?e + 1)"
    by simp
  then have e0: "0 \<le> ?e"
    unfolding powi_less by simp
  from lo assms(2) have "(2::real) powi ?e \<le> 2 powi 53"
    by simp
  then have e53: "?e \<le> 53"
    unfolding powi_mono .
  from e0 have m: "max ?e (- 1022) = ?e"
    by simp
  have "\<exists>k. x = of_int k * 2 powi (?e - 52)"
  proof (cases "?e \<le> 52")
    case True
    then have "(2::real) powi (?e - 52) = 1 / 2 ^ nat (52 - ?e)"
      by (simp add: power_int_def field_simps)
    then have "x = of_int (n * 2 ^ nat (52 - ?e)) * 2 powi (?e - 52)"
      using assms(1) by simp
    then show ?thesis by blast
  next
    case False
    with e53 have e: "?e = 53" by simp
    with lo assms(2) have "\<bar>x\<bar> = 2 ^ 53"
      by simp
    then have "x = 2 ^ 53 \<or> x = - (2 ^ 53)"
      by linarith
    then have "x = of_int (2 ^ 52) * 2 powi (?e - 52) \<or> x = of_int (- (2 ^ 52)) * 2 powi (?e - 52)"
      by (simp add: e)
    then show ?thesis by blast
  qed
  then obtain k where "x = of_int k * 2 powi (max ?e (- 1022) - 52)"
    unfolding m by blast
  moreover have "(2::real) powi 53 < 2 powi 1024"
    unfolding powi_less by simp
  then have "\<bar>x\<bar> < 2 powi 1024"
    using assms(2) by simp
  ultimately show ?thesis
    by (rule round_double_exact)
qed



lemma py_add_float: "py_add (PFloat x) (PFloat y) = Inr (PFloat (fadd x y))"
  by (simp add: py_add_def to_float_def)

lemma py_add_zero: "py_add (PInt 0) (PFloat y) = Inr (PFloat (fadd (Finite 0) y))"
  by (simp add: py_add_def to_float_def round_double_def)

subsection \<open>The totals handed to the chart\<close>

text \<open>
  C2. \<open>graphical_summary\<close> keys its totals by the category as it is stored, so two
  entries whose categories differ in letter case land in two buckets, while the total of
  one category in \<open>view_summary\<close> compares lowered categories and counts both.
\<close>

theorem chart_buckets_case_sensitive:
  "graphical_summary
     \<lparr>expenses = [entry 10 ''Food'' ''2024-03-01'', entry 5 ''food'' ''2024-03-02''],
      disk = Absent\<rparr> =
     Inr ([], Some ([PStr ''Food'', PStr ''food''], [Finite 10, Finite 5]))
   \<and> total_by_category [entry 10 ''Food'' ''2024-03-01'', entry 5 ''food'' ''2024-03-02'']
       ''food'' = Inr (PFloat (Finite 15))"
proof -
  have f: "round_double 10 = Finite 10" "round_double 5 = Finite 5" "round_double 15 = Finite 15"
    using round_double_whole [of 10 10] round_double_whole [of 5 5] round_double_whole [of 15 15]
    by simp_all
  have l: "lower ''Food'' = ''food''" "lower ''food'' = ''food''"
    by code_simp+
  show ?thesis
    by (simp add: graphical_summary_def add_to_def to_float_def py_eq_def entry_def
        total_by_category_def py_add_float py_add_zero f l)
qed

subsection \<open>Totals\<close>




















subsection \<open>The summary over time\<close>

lemma strptime_str: "strptime (PStr s) = Inl ValueError \<or> (\<exists>d. strptime (PStr s) = Inr d)"
  by (auto simp: strptime_def Let_def split: option.splits prod.splits)

lemma validate_date_str:
  "validate_date (PStr s) = Inr (\<exists>d. strptime (PStr s) = Inr d)"
  using strptime_str [of s] by (auto simp: validate_date_def)






subsection \<open>What \<open>validate_date\<close> accepts\<close>

lemma in_alt1: "(x, r) \<in> set (alt1 cls s) \<longleftrightarrow> (\<exists>a. x = [a] \<and> a \<in> set cls \<and> s = a # r)"
  by (auto simp: alt1_def split: list.splits)

lemma in_alt2:
  "(x, r) \<in> set (alt2 cls1 cls2 s) \<longleftrightarrow>
   (\<exists>a b. x = [a, b] \<and> a \<in> set cls1 \<and> b \<in> set cls2 \<and> s = a # b # r)"
  by (auto simp: alt2_def split: list.splits)

lemma length_four: "length x = 4 \<longleftrightarrow> (\<exists>a b c d. x = [a, b, c, d])"
  by (auto simp: length_Suc_conv eval_nat_numeral)

lemma in_group_Y:
  "(x, r) \<in> set (group_Y s) \<longleftrightarrow> (length x = 4 \<and> list_all is_digit x \<and> s = x @ r)"
  unfolding length_four by (auto simp: group_Y_def split: list.splits if_splits)

lemma in_literal: "r \<in> set (literal c s) \<longleftrightarrow> s = c # r"
  by (auto simp: literal_def split: list.splits)
lemma in_concat_map: "x \<in> set (concat (map f xs)) \<longleftrightarrow> (\<exists>y\<in>set xs. x \<in> set (f y))"
  by auto

lemma in_map_pair:
  "((Y, m, d), r5) \<in> set (map (\<lambda>(d', r). ((Y', m', d'), r)) zs) \<longleftrightarrow>
   (Y = Y' \<and> m = m' \<and> (d, r5) \<in> set zs)"
  by (induction zs) auto

lemma in_all_matches:
  "((Y, m, d), r5) \<in> set (all_matches s) \<longleftrightarrow>
   (\<exists>r1 r2 r3 r4. (Y, r1) \<in> set (group_Y s) \<and> r2 \<in> set (literal CHR ''-'' r1)
      \<and> (m, r3) \<in> set (group_m r2) \<and> r4 \<in> set (literal CHR ''-'' r3)
      \<and> (d, r5) \<in> set (group_d r4))"
proof -
  have "((Y, m, d), r5) \<in> set (all_matches s) \<longleftrightarrow>
    (\<exists>y\<in>set (group_Y s). \<exists>r2\<in>set (literal CHR ''-'' (snd y)). \<exists>y'\<in>set (group_m r2).
       \<exists>r4\<in>set (literal CHR ''-'' (snd y')). Y = fst y \<and> m = fst y' \<and> (d, r5) \<in> set (group_d r4))"
    by (simp only: all_matches_def split_beta in_concat_map in_map_pair)
  also have "\<dots> \<longleftrightarrow> (\<exists>r1 r2 r3 r4. (Y, r1) \<in> set (group_Y s) \<and> r2 \<in> set (literal CHR ''-'' r1)
      \<and> (m, r3) \<in> set (group_m r2) \<and> r4 \<in> set (literal CHR ''-'' r3)
      \<and> (d, r5) \<in> set (group_d r4))"
    by (simp add: Bex_def)
  finally show ?thesis .
qed
lemma digit_cases:
  "is_digit a \<longleftrightarrow> a = CHR ''0'' \<or> a = CHR ''1'' \<or> a = CHR ''2'' \<or> a = CHR ''3'' \<or> a = CHR ''4''
     \<or> a = CHR ''5'' \<or> a = CHR ''6'' \<or> a = CHR ''7'' \<or> a = CHR ''8'' \<or> a = CHR ''9''"
  by (auto simp: is_digit_def)

lemma field_text_cases:
  "field_text x \<longleftrightarrow> (\<exists>a. x = [a] \<and> is_digit a) \<or> (\<exists>a b. x = [a, b] \<and> is_digit a \<and> is_digit b)"
  by (auto simp: field_text_def length_Suc_conv eval_nat_numeral)

lemma group_Y_app:
  "length Y = 4 \<Longrightarrow> list_all is_digit Y \<Longrightarrow> group_Y (Y @ r) = [(Y, r)]"
  by (auto simp: length_four group_Y_def)

lemma literal_Cons: "literal c (c # r) = [r]"
  by (simp add: literal_def)

lemma int_text_one: "is_digit a \<Longrightarrow> int_text [a] = digit_val a"
  by (auto simp: digit_cases int_text_def)

lemma int_text_two: "is_digit a \<Longrightarrow> int_text [a, b] = 10 * digit_val a + digit_val b"
  by (auto simp: digit_cases int_text_def)

lemma int_text_blank: "int_text [CHR '' '', c] = int_text [c]"
  by (simp add: int_text_def)

lemma digit_val_cases:
  "digit_val CHR ''0'' = 0" "digit_val CHR ''1'' = 1" "digit_val CHR ''2'' = 2"
  "digit_val CHR ''3'' = 3" "digit_val CHR ''4'' = 4" "digit_val CHR ''5'' = 5"
  "digit_val CHR ''6'' = 6" "digit_val CHR ''7'' = 7" "digit_val CHR ''8'' = 8"
  "digit_val CHR ''9'' = 9"
  by (simp_all add: digit_val_def)
lemma digit_val_range: "is_digit a \<Longrightarrow> 0 \<le> digit_val a \<and> digit_val a \<le> 9"
  unfolding digit_cases by (elim disjE; simp add: digit_val_cases)

lemma digit_classes:
  assumes "is_digit a"
  shows "digit_val a = 0 \<longleftrightarrow> a = CHR ''0''"
    and "digit_val a = 1 \<longleftrightarrow> a = CHR ''1''"
    and "digit_val a = 3 \<longleftrightarrow> a = CHR ''3''"
    and "digit_val a \<le> 1 \<longleftrightarrow> a \<in> set ''01''"
    and "digit_val a \<le> 2 \<longleftrightarrow> a \<in> set ''012''"
    and "1 \<le> digit_val a \<longleftrightarrow> a \<in> set ''123456789''"
    and "digit_val a = 2 \<longleftrightarrow> a = CHR ''2''"
proof -
  from assms have d: "a = CHR ''0'' \<or> a = CHR ''1'' \<or> a = CHR ''2'' \<or> a = CHR ''3''
     \<or> a = CHR ''4'' \<or> a = CHR ''5'' \<or> a = CHR ''6'' \<or> a = CHR ''7'' \<or> a = CHR ''8''
     \<or> a = CHR ''9''"
    by (simp add: digit_cases)
  show "digit_val a = 0 \<longleftrightarrow> a = CHR ''0''"
    using d by (elim disjE; simp add: digit_val_cases)
  show "digit_val a = 1 \<longleftrightarrow> a = CHR ''1''"
    using d by (elim disjE; simp add: digit_val_cases)
  show "digit_val a = 3 \<longleftrightarrow> a = CHR ''3''"
    using d by (elim disjE; simp add: digit_val_cases)
  show "digit_val a \<le> 1 \<longleftrightarrow> a \<in> set ''01''"
    using d by (elim disjE; simp add: digit_val_cases)
  show "digit_val a \<le> 2 \<longleftrightarrow> a \<in> set ''012''"
    using d by (elim disjE; simp add: digit_val_cases)
  show "1 \<le> digit_val a \<longleftrightarrow> a \<in> set ''123456789''"
    using d by (elim disjE; simp add: digit_val_cases)
  show "digit_val a = 2 \<longleftrightarrow> a = CHR ''2''"
    using d by (elim disjE; simp add: digit_val_cases)
qed
lemma month_step:
  assumes "field_text M" and "1 \<le> int_text M" and "int_text M \<le> 12"
  shows "concat (map (\<lambda>(m, r3). concat (map (G m) (literal CHR ''-'' r3)))
           (group_m (M @ CHR ''-'' # rest))) = G M rest"
proof -
  from assms(1) consider a where "M = [a]" "is_digit a"
    | a b where "M = [a, b]" "is_digit a" "is_digit b"
    by (auto simp: field_text_cases)
  then show ?thesis
  proof cases
    case 1
    with assms(2) have "a \<in> set ''123456789''"
      by (simp add: int_text_one digit_classes)
    then have "a = CHR ''1'' \<or> a = CHR ''2'' \<or> a = CHR ''3'' \<or> a = CHR ''4'' \<or> a = CHR ''5''
        \<or> a = CHR ''6'' \<or> a = CHR ''7'' \<or> a = CHR ''8'' \<or> a = CHR ''9''"
      by simp
    then show ?thesis
      unfolding 1 by (elim disjE; simp add: group_m_def alt1_def alt2_def literal_def)
  next
    case 2
    have "(digit_val a = 1 \<and> digit_val b \<le> 2) \<or> (digit_val a = 0 \<and> 1 \<le> digit_val b)"
      using assms(2,3) digit_val_range [OF 2(2)] digit_val_range [OF 2(3)]
      unfolding 2(1) int_text_two [OF 2(2)] by arith
    then have "(a = CHR ''1'' \<and> b \<in> set ''012'') \<or> (a = CHR ''0'' \<and> b \<in> set ''123456789'')"
      using 2 by (simp add: digit_classes)
    then have "(a = CHR ''1'' \<and> (b = CHR ''0'' \<or> b = CHR ''1'' \<or> b = CHR ''2''))
       \<or> (a = CHR ''0'' \<and> (b = CHR ''1'' \<or> b = CHR ''2'' \<or> b = CHR ''3'' \<or> b = CHR ''4''
            \<or> b = CHR ''5'' \<or> b = CHR ''6'' \<or> b = CHR ''7'' \<or> b = CHR ''8'' \<or> b = CHR ''9''))"
      by simp
    then show ?thesis
      unfolding 2(1) by (elim disjE conjE; simp add: group_m_def alt1_def alt2_def literal_def)
  qed
qed
lemma day_head:
  assumes "field_text D \<or> (\<exists>c. D = [CHR '' '', c] \<and> is_digit c)"
    and "1 \<le> int_text D" and "int_text D \<le> 31"
  shows "\<exists>others. group_d D = (D, []) # others"
proof -
  from assms(1) consider a where "D = [a]" "is_digit a"
    | a b where "D = [a, b]" "is_digit a" "is_digit b"
    | c where "D = [CHR '' '', c]" "is_digit c"
    by (auto simp: field_text_cases)
  then show ?thesis
  proof cases
    case 1
    with assms(2) have "a \<in> set ''123456789''"
      by (simp add: int_text_one digit_classes)
    then show ?thesis
      unfolding 1 by (simp add: group_d_def alt1_def alt2_def)
  next
    case 2
    have "(digit_val a = 3 \<and> digit_val b \<le> 1) \<or> digit_val a = 1 \<or> digit_val a = 2
        \<or> (digit_val a = 0 \<and> 1 \<le> digit_val b)"
      using assms(2,3) digit_val_range [OF 2(2)] digit_val_range [OF 2(3)]
      unfolding 2(1) int_text_two [OF 2(2)] by arith
    then have "(a = CHR ''3'' \<and> b \<in> set ''01'') \<or> a = CHR ''1'' \<or> a = CHR ''2''
        \<or> (a = CHR ''0'' \<and> b \<in> set ''123456789'')"
      using 2 by (simp add: digit_classes)
    moreover have "b \<in> set ''0123456789''"
      using 2(3) by (simp add: is_digit_def)
    ultimately show ?thesis
      unfolding 2(1) by (elim disjE conjE; simp add: group_d_def alt1_def alt2_def)
  next
    case 3
    with assms(2) have "c \<in> set ''123456789''"
      by (simp add: int_text_blank int_text_one digit_classes)
    then show ?thesis
      unfolding 3 by (simp add: group_d_def alt1_def alt2_def)
  qed
qed

lemma days_in_month_le: "1 \<le> month \<Longrightarrow> month \<le> 12 \<Longrightarrow> days_in_month year month \<le> 31"
proof -
  assume "1 \<le> month" "month \<le> 12"
  then have "month = 1 \<or> month = 2 \<or> month = 3 \<or> month = 4 \<or> month = 5 \<or> month = 6
     \<or> month = 7 \<or> month = 8 \<or> month = 9 \<or> month = 10 \<or> month = 11 \<or> month = 12"
    by arith
  then show ?thesis
    by (elim disjE; simp add: days_in_month_def DAYS_IN_MONTH_def)
qed
lemma in_group_m: "(m, r) \<in> set (group_m s) \<Longrightarrow> field_text m \<and> s = m @ r"
  unfolding group_m_def set_append Un_iff in_alt1 in_alt2
  by (elim disjE exE conjE; simp add: field_text_def is_digit_def; elim disjE; simp)

lemma in_group_d:
  "(d, r) \<in> set (group_d s) \<Longrightarrow>
   (field_text d \<or> (\<exists>c. d = [CHR '' '', c] \<and> is_digit c)) \<and> s = d @ r"
  unfolding group_d_def set_append Un_iff in_alt1 in_alt2
  by (elim disjE exE conjE; simp add: field_text_def is_digit_def; (elim disjE)?; simp)

lemma regex_sound:
  assumes "format_regex_match s = Some ((Y, m, d), r)"
  shows "s = Y @ ''-'' @ m @ ''-'' @ d @ r \<and> length Y = 4 \<and> list_all is_digit Y \<and> field_text m
         \<and> (field_text d \<or> (\<exists>c. d = [CHR '' '', c] \<and> is_digit c))"
proof -
  from assms have "((Y, m, d), r) \<in> set (all_matches s)"
    by (auto simp: format_regex_match_def split: list.splits)
  then obtain r1 r2 r3 r4 where Y: "(Y, r1) \<in> set (group_Y s)"
    and l1: "r2 \<in> set (literal CHR ''-'' r1)"
    and m: "(m, r3) \<in> set (group_m r2)"
    and l2: "r4 \<in> set (literal CHR ''-'' r3)"
    and d: "(d, r) \<in> set (group_d r4)"
    unfolding in_all_matches by blast
  from Y l1 l2 in_group_m [OF m] in_group_d [OF d] show ?thesis
    by (simp add: in_group_Y in_literal)
qed

lemma regex_complete:
  assumes "length Y = 4" and "list_all is_digit Y" and "field_text M"
    and "field_text D \<or> (\<exists>c. D = [CHR '' '', c] \<and> is_digit c)"
    and "check_date_fields (int_text Y) (int_text M) (int_text D)"
  shows "format_regex_match (Y @ ''-'' @ M @ ''-'' @ D) = Some ((Y, M, D), [])"
proof -
  from assms(5) have m: "1 \<le> int_text M" "int_text M \<le> 12"
    and d: "1 \<le> int_text D" "int_text D \<le> days_in_month (int_text Y) (int_text M)"
    by (simp_all add: check_date_fields_def)
  from d(2) days_in_month_le [OF m] have d31: "int_text D \<le> 31"
    by (rule order_trans)
  have "all_matches (Y @ ''-'' @ M @ ''-'' @ D) =
          map (\<lambda>(d, r5). ((Y, M, d), r5)) (group_d D)"
    using month_step [OF assms(3) m, where rest = D
        and G = "\<lambda>m r4. map (\<lambda>(d, r5). ((Y, m, d), r5)) (group_d r4)"]
    by (simp add: all_matches_def group_Y_app [OF assms(1,2)] literal_Cons)
  moreover obtain others where "group_d D = (D, []) # others"
    using day_head [OF assms(4) d(1) d31] by blast
  ultimately show ?thesis
    by (simp add: format_regex_match_def)
qed
lemma int_text_four:
  "is_digit a \<Longrightarrow>
   int_text [a, b, c, d] = 1000 * digit_val a + 100 * digit_val b + 10 * digit_val c + digit_val d"
  unfolding digit_cases by (elim disjE; simp add: int_text_def)

lemma strict_is_accepted:
  assumes "strict_ymd s" and "1 \<le> int_text (take 4 s)"
  shows "accepted_date_text s"
proof -
  from assms(1) have "length s = 10"
    by (simp add: strict_ymd_def)
  then obtain y1 y2 y3 y4 h1 m1 m2 h2 d1 d2 where s: "s = [y1, y2, y3, y4, h1, m1, m2, h2, d1, d2]"
    by (auto simp: length_Suc_conv eval_nat_numeral)
  from assms(1) have h: "h1 = CHR ''-''" "h2 = CHR ''-''"
    and dig: "is_digit y1" "is_digit y2" "is_digit y3" "is_digit y4"
      "is_digit m1" "is_digit m2" "is_digit d1" "is_digit d2"
    and g: "gregorian (int_text [y1, y2, y3, y4]) (int_text [m1, m2]) (int_text [d1, d2])"
    by (simp_all add: strict_ymd_def s)
  have "int_text [y1, y2, y3, y4] \<le> 9999"
    using dig(1-4) [THEN digit_val_range] by (simp add: int_text_four [OF dig(1)])
  with g assms(2) have "check_date_fields (int_text [y1, y2, y3, y4]) (int_text [m1, m2])
      (int_text [d1, d2])"
    by (simp add: gregorian_def check_date_fields_def s)
  then show ?thesis
    unfolding accepted_date_text_def
    by (intro exI [of _ "[y1, y2, y3, y4]"] exI [of _ "[m1, m2]"] exI [of _ "[d1, d2]"])
       (simp add: s h dig field_text_def)
qed

text \<open>
  On texts of characters below 256, \<open>validate_date\<close> answers true exactly for the texts
  \<open>Y-M-D\<close> with a year of four digits from 0001 on, a month of one or two digits and a day
  of one or two digits (or a blank and a digit) that name a date of the calendar. Among
  them are the dates of the years 0001 to 9999 written strictly as \<open>YYYY-MM-DD\<close>.
\<close>

lemma validate_date_characterised:
  "validate_date (PStr s) = Inr (accepted_date_text s)
   \<and> (strict_ymd s \<and> 1 \<le> int_text (take 4 s) \<longrightarrow> accepted_date_text s)"
proof -
  have "validate_date (PStr s) = Inr True" if "accepted_date_text s"
  proof -
    from that obtain Y M D where s: "s = Y @ ''-'' @ M @ ''-'' @ D"
      and Y: "length Y = 4" "list_all is_digit Y" and M: "field_text M"
      and D: "field_text D \<or> (\<exists>c. D = [CHR '' '', c] \<and> is_digit c)"
      and c: "check_date_fields (int_text Y) (int_text M) (int_text D)"
      unfolding accepted_date_text_def by blast
    have "format_regex_match s = Some ((Y, M, D), [])"
      unfolding s by (rule regex_complete [OF Y M D c])
    with c show ?thesis
      by (simp add: validate_date_def strptime_def)
  qed
  moreover have "accepted_date_text s" if "\<exists>d. strptime (PStr s) = Inr d"
  proof -
    from that obtain Y m d where f: "format_regex_match s = Some ((Y, m, d), [])"
      and c: "check_date_fields (int_text Y) (int_text m) (int_text d)"
      by (auto simp: strptime_def Let_def split: option.splits prod.splits if_splits)
    from regex_sound [OF f] c show ?thesis
      unfolding accepted_date_text_def by auto
  qed
  ultimately have "validate_date (PStr s) = Inr (accepted_date_text s)"
    using validate_date_str [of s] by auto
  then show ?thesis
    using strict_is_accepted by blast
qed

text \<open>
  C4. The docstring of \<open>validate_date\<close> says that it validates whether the text is in
  \<open>YYYY-MM-DD\<close> date format, so it should answer false for fields without zero padding.
  It answers true for \<open>2024-1-5\<close> and for \<open>2024-01- 5\<close>, which are not in that format:
  \<open>strptime\<close> takes a month and a day of one digit, and a blank before the day.
\<close>

theorem validate_date_takes_unpadded:
  "validate_date (PStr ''2024-1-5'') = Inr True \<and> \<not> strict_ymd ''2024-1-5''
   \<and> validate_date (PStr ''2024-01- 5'') = Inr True \<and> \<not> strict_ymd ''2024-01- 5''
   \<and> validate_date (PStr ''2024-01-05'') = Inr True \<and> strict_ymd ''2024-01-05''"
  by code_simp

subsection \<open>Adding an expense\<close>

lemma digit_char_values:
  "digit_char 0 = CHR ''0''" "digit_char 1 = CHR ''1''" "digit_char 2 = CHR ''2''"
  "digit_char 3 = CHR ''3''" "digit_char 4 = CHR ''4''" "digit_char 5 = CHR ''5''"
  "digit_char 6 = CHR ''6''" "digit_char 7 = CHR ''7''" "digit_char 8 = CHR ''8''"
  "digit_char 9 = CHR ''9''"
  by code_simp+

lemma digit_char_digit:
  assumes "k < 10"
  shows "is_digit (digit_char k) \<and> digit_val (digit_char k) = int k"
proof -
  from assms have "k = 0 \<or> k = 1 \<or> k = 2 \<or> k = 3 \<or> k = 4 \<or> k = 5 \<or> k = 6 \<or> k = 7 \<or> k = 8 \<or> k = 9"
    by arith
  then show ?thesis
    by (elim disjE; simp only: digit_char_values digit_val_cases; simp add: is_digit_def)
qed

lemma str_nat_digits:
  "list_all is_digit (str_nat n) \<and> str_nat n \<noteq> []
   \<and> foldl (\<lambda>v c. 10 * v + digit_val c) 0 (str_nat n) = int n"
proof (induction n rule: str_nat.induct)
  case (1 n)
  show ?case
  proof (cases "n < 10")
    case True
    then show ?thesis
      by (subst (1 2 3) str_nat.simps) (simp add: digit_char_digit)
  next
    case False
    have m: "n mod 10 < 10"
      by simp
    from False 1 show ?thesis
      by (subst (1 2 3) str_nat.simps) (simp add: digit_char_digit [OF m] zdiv_int zmod_int)
  qed
qed

lemma str_nat_length: "0 < k \<Longrightarrow> n < 10 ^ k \<Longrightarrow> length (str_nat n) \<le> k"
proof (induction n arbitrary: k rule: str_nat.induct)
  case (1 n)
  show ?case
  proof (cases "n < 10")
    case True
    with 1(2) show ?thesis
      by (subst str_nat.simps) simp
  next
    case False
    with 1(3) have "k \<noteq> 1"
      by auto
    with 1(2) obtain j where k: "k = Suc j" and j: "0 < j"
      by (cases k) auto
    from 1(3) have "n div 10 < 10 ^ j"
      by (simp add: k less_mult_imp_div_less mult.commute)
    from 1(1) [OF False j this] False show ?thesis
      by (subst str_nat.simps) (simp add: k)
  qed
qed

lemma zero_pad_digits:
  assumes "0 \<le> i" and "nat i < 10 ^ w" and "0 < w"
  shows "length (zero_pad w i) = w \<and> list_all is_digit (zero_pad w i) \<and> int_text (zero_pad w i) = i"
proof -
  let ?s = "str_nat (nat i)"
  let ?z = "replicate (w - length ?s) CHR ''0''"
  have z: "zero_pad w i = ?z @ ?s"
    using assms(1) by (simp add: zero_pad_def str_int_def Let_def)
  have len: "length ?s \<le> w"
    using assms(3,2) by (rule str_nat_length)
  have z0: "is_digit CHR ''0''"
    by (simp add: is_digit_def)
  then have "list_all is_digit ?z"
    by (simp add: list_all_iff)
  then have dig: "list_all is_digit (?z @ ?s)"
    using str_nat_digits [of "nat i"] by simp
  have "\<not> is_digit CHR '' ''"
    by (simp add: is_digit_def)
  with dig have "hd (?z @ ?s) \<noteq> CHR '' ''"
    using str_nat_digits [of "nat i"] by (cases "?z @ ?s") auto
  then have "dropWhile (\<lambda>c. c = CHR '' '') (?z @ ?s) = ?z @ ?s"
    by (simp add: dropWhile_eq_self_iff)
  moreover have "foldl (\<lambda>v c. 10 * v + digit_val c) 0 (replicate j CHR ''0'') = 0" for j
    by (induction j) (simp_all add: digit_val_cases)
  ultimately have "int_text (?z @ ?s) = i"
    using str_nat_digits [of "nat i"] assms(1) by (simp add: int_text_def)
  with len dig show ?thesis
    by (simp add: z)
qed
lemma str_nat_length_ge: "10 ^ k \<le> n \<Longrightarrow> k < length (str_nat n)"
proof (induction n arbitrary: k rule: str_nat.induct)
  case (1 n)
  show ?case
  proof (cases k)
    case 0
    then show ?thesis
      using str_nat_digits [of n] by (cases "str_nat n") simp_all
  next
    case (Suc j)
    with 1(2) have n: "\<not> n < 10"
      by (cases "n < 10") (simp_all add: not_le, metis le_trans one_le_numeral one_le_power mult.right_neutral mult_le_mono2 not_less)
    from 1(2) have "10 ^ j \<le> n div 10"
      by (simp add: Suc less_eq_div_iff_mult_less_eq mult.commute)
    from 1(1) [OF n this] n show ?thesis
      by (subst str_nat.simps) (simp add: Suc)
  qed
qed

lemma str_int_year:
  assumes "1000 \<le> y" and "y \<le> 9999"
  shows "length (str_int y) = 4 \<and> list_all is_digit (str_int y) \<and> int_text (str_int y) = y"
proof -
  from assms(1) have "10 ^ 3 \<le> nat y"
    by simp
  then have "3 < length (str_nat (nat y))"
    by (rule str_nat_length_ge)
  with assms(1) have "zero_pad 4 y = str_int y"
    by (simp add: zero_pad_def str_int_def Let_def)
  with zero_pad_digits [of y 4] assms show ?thesis
    by simp
qed

lemma strftime_parses:
  assumes "check_date_fields y m d" and "1000 \<le> y"
  shows "strptime (PStr (strftime_Ymd (y, m, d))) = Inr (y, m, d)"
proof -
  from assms have y: "1000 \<le> y" "y \<le> 9999" and m: "1 \<le> m" "m \<le> 12"
    and d: "1 \<le> d" "d \<le> days_in_month y m"
    by (simp_all add: check_date_fields_def)
  from d(2) days_in_month_le [OF m] have d31: "d \<le> 31"
    by (rule order_trans)
  have Y: "length (str_int y) = 4" "list_all is_digit (str_int y)" "int_text (str_int y) = y"
    using str_int_year [OF y] by simp_all
  have M: "length (zero_pad 2 m) = 2" "list_all is_digit (zero_pad 2 m)" "int_text (zero_pad 2 m) = m"
    using zero_pad_digits [of m 2] m by simp_all
  have D: "length (zero_pad 2 d) = 2" "list_all is_digit (zero_pad 2 d)" "int_text (zero_pad 2 d) = d"
    using zero_pad_digits [of d 2] d d31 by simp_all
  have "format_regex_match (str_int y @ ''-'' @ zero_pad 2 m @ ''-'' @ zero_pad 2 d) =
          Some ((str_int y, zero_pad 2 m, zero_pad 2 d), [])"
    by (rule regex_complete) (simp_all add: Y M D field_text_def assms)
  then show ?thesis
    using assms by (simp add: strptime_def strftime_Ymd_def Y M D)
qed

lemma strftime_strict:
  assumes "check_date_fields y m d" and "1000 \<le> y"
  shows "strict_ymd (strftime_Ymd (y, m, d))"
proof -
  from assms have y: "1000 \<le> y" "y \<le> 9999" and m: "1 \<le> m" "m \<le> 12"
    and d: "1 \<le> d" "d \<le> days_in_month y m"
    by (simp_all add: check_date_fields_def)
  from d(2) days_in_month_le [OF m] have d31: "d \<le> 31"
    by (rule order_trans)
  have Y: "length (str_int y) = 4" "list_all is_digit (str_int y)" "int_text (str_int y) = y"
    using str_int_year [OF y] by simp_all
  have M: "length (zero_pad 2 m) = 2" "list_all is_digit (zero_pad 2 m)" "int_text (zero_pad 2 m) = m"
    using zero_pad_digits [of m 2] m by simp_all
  have D: "length (zero_pad 2 d) = 2" "list_all is_digit (zero_pad 2 d)" "int_text (zero_pad 2 d) = d"
    using zero_pad_digits [of d 2] d d31 by simp_all
  from Y(1) obtain a b c e where Yl: "str_int y = [a, b, c, e]"
    unfolding length_four by blast
  from M(1) obtain f g where Ml: "zero_pad 2 m = [f, g]"
    by (auto simp: length_Suc_conv eval_nat_numeral)
  from D(1) obtain h i where Dl: "zero_pad 2 d = [h, i]"
    by (auto simp: length_Suc_conv eval_nat_numeral)
  show ?thesis
    using Y(2,3) M(2,3) D(2,3) m d
    by (simp add: strict_ymd_def strftime_Ymd_def gregorian_def Yl Ml Dl)
qed

lemma strftime_early_year:
  "strftime_Ymd (5, 1, 1) = ''5-01-01'' \<and> validate_date (PStr (strftime_Ymd (5, 1, 1))) = Inr False"
  by code_simp

text \<open>
  C9. For an amount that \<open>float\<close> reads: the date typed, or the date \<open>now\<close> of the clock
  written by \<open>strftime\<close> when none is typed, is validated. When it passes \<open>validate_date\<close>,
  the new expense with the given amount, category and date is put at the end of the list
  and the file is rewritten; otherwise \<open>Error: Invalid date format\<close> is printed and tracker
  and file are as before. For a clock in a year from 1000 on, the text that \<open>strftime\<close>
  writes is in the form \<open>YYYY-MM-DD\<close>, is read back by \<open>strptime\<close> as the date of the clock,
  and passes the validation.
\<close>

theorem add_expenses_spec:
  assumes "float_of (strip amount_in) = Some a"
  shows "(let date_text = (if strip date_in = [] then strftime_Ymd (y, m, d) else strip date_in);
              expense = \<lparr>amount = PFloat a, category = PStr (strip category_in),
                         date = PStr date_text\<rparr>
          in if validate_date (PStr date_text) = Inr True then
               add_expenses float_of (y, m, d) amount_in category_in date_in t =
                 Inr ([Success (PFloat a) (PStr (strip category_in)) (PStr date_text), DataSaved],
                      t\<lparr>expenses := expenses t @ [expense],
                        disk := Document (PList (map to_dict (expenses t @ [expense])))\<rparr>)
             else add_expenses float_of (y, m, d) amount_in category_in date_in t =
                    Inr ([ErrorInvalidDate], t))
    \<and> (check_date_fields y m d \<and> 1000 \<le> y \<longrightarrow>
         strptime (PStr (strftime_Ymd (y, m, d))) = Inr (y, m, d)
         \<and> strict_ymd (strftime_Ymd (y, m, d))
         \<and> validate_date (PStr (strftime_Ymd (y, m, d))) = Inr True)"
proof -
  have v: "validate_date (PStr x) = Inr True \<or> validate_date (PStr x) = Inr False" for x
    using validate_date_str [of x] by auto
  have 1: "validate_date (PStr (strftime_Ymd (y, m, d))) = Inr True"
    if "check_date_fields y m d" "1000 \<le> y"
    using strftime_parses [OF that] by (simp add: validate_date_def)
  have 2: "let date_text = (if strip date_in = [] then strftime_Ymd (y, m, d) else strip date_in);
              expense = \<lparr>amount = PFloat a, category = PStr (strip category_in),
                         date = PStr date_text\<rparr>
          in if validate_date (PStr date_text) = Inr True then
               add_expenses float_of (y, m, d) amount_in category_in date_in t =
                 Inr ([Success (PFloat a) (PStr (strip category_in)) (PStr date_text), DataSaved],
                      t\<lparr>expenses := expenses t @ [expense],
                        disk := Document (PList (map to_dict (expenses t @ [expense])))\<rparr>)
             else add_expenses float_of (y, m, d) amount_in category_in date_in t =
                    Inr ([ErrorInvalidDate], t)"
    using v [of "strip date_in"] v [of "strftime_Ymd (y, m, d)"] assms
    by (auto simp: add_expenses_def Let_def save_to_file_def)
  from 1 2 strftime_parses strftime_strict show ?thesis
    by blast
qed

theorem add_expenses_spec_witness:
  "add_expenses (\<lambda>s. if s = ''250.0'' then Some (Finite 250) else None) (2024, 3, 1)
      ''250.0'' ''Food'' '''' (new_tracker Absent) =
     Inr ([Success (PFloat (Finite 250)) (PStr ''Food'') (PStr ''2024-03-01''), DataSaved],
          \<lparr>expenses = [entry 250 ''Food'' ''2024-03-01''],
           disk = Document (PList [to_dict (entry 250 ''Food'' ''2024-03-01'')])\<rparr>)
   \<and> add_expenses (\<lambda>s. if s = ''250.0'' then Some (Finite 250) else None) (2024, 3, 1)
      ''250.0'' ''Food'' ''2024-02-30'' (new_tracker Absent) =
     Inr ([ErrorInvalidDate], new_tracker Absent)
   \<and> strptime (PStr (strftime_Ymd (2024, 3, 1))) = Inr (2024, 3, 1)
   \<and> strict_ymd (strftime_Ymd (2024, 3, 1))"
proof -
  have s: "strip ''250.0'' = ''250.0''" "strip ''Food'' = ''Food''" "strip '''' = ''''"
    "strip ''2024-02-30'' = ''2024-02-30''"
    by (simp_all add: strip_def is_space_def)
  have c: "check_date_fields 2024 3 1"
    and f: "strftime_Ymd (2024, 3, 1) = ''2024-03-01''"
    and i: "validate_date (PStr ''2024-02-30'') = Inr False"
    and v: "validate_date (PStr ''2024-03-01'') = Inr True"
    by code_simp+
  show ?thesis
    using add_expenses_spec [where float_of = "\<lambda>s. if s = ''250.0'' then Some (Finite 250) else None"
        and amount_in = "''250.0''" and a = "Finite 250" and y = 2024 and m = 3 and d = 1
        and category_in = "''Food''" and date_in = "''''" and t = "new_tracker Absent"]
      add_expenses_spec [where float_of = "\<lambda>s. if s = ''250.0'' then Some (Finite 250) else None"
        and amount_in = "''250.0''" and a = "Finite 250" and y = 2024 and m = 3 and d = 1
        and category_in = "''Food''" and date_in = "''2024-02-30''" and t = "new_tracker Absent"]
    by (simp add: s c f i v new_tracker_def Let_def entry_def)
qed

end
